theory Spec2Isabelle
  imports Main "HOL-Library.AList"
begin

section \<open>The prediction service of app/app.py\<close>

text \<open>
  The module app/app.py configures itself once when it is imported (the operating mode
  \<open>ENV\<close>, the database \<open>collection\<close>, the registry \<open>MODELS\<close>) and then serves two
  routes, \<open>GET /\<close> and \<open>POST /predict\<close>. The embedding keeps the three module-level names
  as a record of the process, and makes the collaborators that the module imports
  (\<open>verify_token\<close>, \<open>get_mongo_collection\<close>, \<open>IntentClassifier.predict\<close>,
  \<open>collection.insert_one\<close>, the clock) explicit arguments: each is given by what one call
  of it does, a returned value or a raised exception.
\<close>

subsection \<open>Values\<close>

text \<open>
  An exception raised by a collaborator or by the interpreter. Every value of this type
  is an instance of Python's class \<open>Exception\<close>, which is what \<open>except Exception\<close>
  catches; the \<open>HTTPException\<close> that the gate raises itself is an outcome of the route
  below.
\<close>

datatype exn = NameError string | KeyError string | TypeError string | Exception string

text \<open>
  \<open>NameError n\<close>: the name \<open>n\<close> is not defined. \<open>KeyError k\<close>: the dictionary has no key
  \<open>k\<close>. \<open>TypeError t\<close>: an object of type \<open>t\<close> is not JSON serializable.
\<close>

datatype object_id = ObjectId string

fun str :: "object_id \<Rightarrow> string" where
  "str (ObjectId h) = h"

text \<open>A module-level name is bound to a value or not bound at all.\<close>

datatype 'a binding = Unbound | Bound 'a

text \<open>
  The handle that \<open>get_mongo_collection\<close> returns, known by the name it was asked for.
\<close>

datatype mongo_collection = Collection string

text \<open>
  The entry \<open>{"top_intent": ..., "all_probs": ...}\<close> of one model. The handler passes
  the probabilities on without looking at them, so their type is a parameter.
\<close>

record 'p prediction =
  top_intent :: string
  all_probs :: 'p

text \<open>
  The dictionary \<open>results\<close>. The keys \<open>_id\<close>, \<open>id\<close> and \<open>db_error\<close> are absent
  (\<open>None\<close>) until they are assigned; \<open>predictions\<close> is a dictionary in insertion order.
\<close>

record 'p results =
  text_field :: string
  owner :: string
  predictions :: "(string \<times> 'p prediction) list"
  timestamp :: int
  raw_id :: "object_id option"
  id_field :: "string option"
  db_error :: "string option"

text \<open>\<open>IntentClassifier.predict\<close>: the pair it returns, or the exception it raises.\<close>

type_synonym 'p model = "string \<Rightarrow> exn + (string \<times> 'p)"

record 'p app_state =
  ENV :: string
  collection :: "mongo_collection option binding"
  MODELS :: "(string \<times> 'p model) list"

text \<open>
  One call of \<open>collection.insert_one(results)\<close>. The call works on the dictionary it is
  given: it may store a generated identifier under \<open>_id\<close> (line 132 reads it back), and
  it returns or raises. The first argument of both constructors is the identifier that
  the call stored, \<open>None\<close> when it stored none. The driver the module is written for
  stores \<open>_id\<close> before it writes to the server, so it returns or raises with the
  identifier stored; the \<open>MagicMock\<close> of the tests stores nothing.
\<close>

datatype insert_result =
    InsertReturns "object_id option"
  | InsertRaises "object_id option" exn

text \<open>
  What the collaborators do while one request is served: the result of awaiting
  \<open>verify_token()\<close>, the reading of the clock in microseconds since the Unix epoch (the
  resolution of \<open>datetime\<close>), and what \<open>insert_one\<close> does on the record it is given.
\<close>

record 'p world =
  verify_token :: "exn + string"
  utcnow :: nat
  insert_one :: "'p results \<Rightarrow> insert_result"

text \<open>The calls made to the collaborators, in order.\<close>

datatype 'p event =
    VerifyTokenCalled
  | PredictCalled string string
  | InsertOneCalled "'p results"

text \<open>
  How a route ends: it returns \<open>JSONResponse(content=results)\<close>, it raises the framework's
  \<open>HTTPException(status_code, detail)\<close>, or another exception leaves the handler.
\<close>

datatype 'p outcome =
    JSONResponse "'p results"
  | HTTPException nat string
  | Raised exn

text \<open>
  The status the framework sends: 200 for a \<open>JSONResponse\<close> built without a status, the
  status of an \<open>HTTPException\<close>, and 500 for an exception nobody handled.
\<close>

fun status_code :: "'p outcome \<Rightarrow> nat" where
  "status_code (JSONResponse r) = 200"
| "status_code (HTTPException s d) = s"
| "status_code (Raised e) = 500"

subsection \<open>Configuration at import time\<close>

text \<open>
  \<open>str.lower\<close> and \<open>str.upper\<close> on the ASCII letters. Characters outside ASCII are left
  as they are, which changes no comparison with the word \<open>dev\<close>: no character outside
  ASCII has d, e or v as its lower case.
\<close>

definition lower_char :: "char \<Rightarrow> char" where
  "lower_char c =
     (let n = (of_char c :: nat) in if 65 \<le> n \<and> n \<le> 90 then char_of (n + 32) else c)"

definition upper_char :: "char \<Rightarrow> char" where
  "upper_char c =
     (let n = (of_char c :: nat) in if 97 \<le> n \<and> n \<le> 122 then char_of (n - 32) else c)"

definition lower :: "string \<Rightarrow> string" where
  "lower s = map lower_char s"

definition upper :: "string \<Rightarrow> string" where
  "upper s = map upper_char s"

text \<open>
  \<open>os.getenv(name, default)\<close> on the value that the environment holds, if any, once
  \<open>load_dotenv()\<close> has run.
\<close>

definition getenv :: "string option \<Rightarrow> string \<Rightarrow> string" where
  "getenv var dflt = (case var of None \<Rightarrow> dflt | Some v \<Rightarrow> v)"

definition read_ENV :: "string option \<Rightarrow> string" where
  "read_ENV var = lower (getenv var ''prod'')"

text \<open>
  Lines 49 to 54: the \<open>try\<close> binds \<open>collection\<close> when \<open>get_mongo_collection\<close> returns;
  the \<open>except\<close> branch only logs.
\<close>

definition init_collection ::
  "string \<Rightarrow> (string \<Rightarrow> exn + mongo_collection option) \<Rightarrow> mongo_collection option binding" where
  "init_collection env get_mongo_collection =
     (case get_mongo_collection (upper env @ ''_intent_logs'') of
        Inr c \<Rightarrow> Bound c
      | Inl e \<Rightarrow> Unbound)"

text \<open>
  The module body, with the registry as the loading loop of lines 72 to 97 left it: a
  dictionary from model names to models, kept in insertion order.
\<close>

definition startup ::
  "string option \<Rightarrow> (string \<Rightarrow> exn + mongo_collection option) \<Rightarrow> (string \<times> 'p model) list
     \<Rightarrow> 'p app_state" where
  "startup var get_mongo_collection models =
     (let env = read_ENV var in
      \<lparr>ENV = env, collection = init_collection env get_mongo_collection, MODELS = models\<rparr>)"

subsection \<open>The authorization gate\<close>

definition conditional_auth ::
  "'p app_state \<Rightarrow> 'p world \<Rightarrow> 'p event list \<times> ('p outcome + string)" where
  "conditional_auth st w =
     (if ENV st = ''dev'' then ([], Inr ''dev_user'')
      else
        (case verify_token w of
           Inr u \<Rightarrow> ([VerifyTokenCalled], Inr u)
         | Inl e \<Rightarrow> ([VerifyTokenCalled], Inl (HTTPException 401 ''Authentication failed''))))"

subsection \<open>The routes\<close>

definition root :: "'p app_state \<Rightarrow> string" where
  "root st = ''Basic ML App is running in '' @ ENV st @ '' mode''"

text \<open>
  The loop of lines 113 to 119 over \<open>MODELS.items()\<close>: each model is called in turn and its
  entry assigned under its name; the first exception ends the loop and leaves the handler.
\<close>

fun fan_out ::
  "(string \<times> 'p model) list \<Rightarrow> string \<Rightarrow> (string \<times> 'p prediction) list
     \<Rightarrow> 'p event list \<times> (exn + (string \<times> 'p prediction) list)" where
  "fan_out [] txt preds = ([], Inr preds)"
| "fan_out ((model_name, model) # rest) txt preds =
     (case model txt of
        Inl e \<Rightarrow> ([PredictCalled model_name txt], Inl e)
      | Inr (label, probs) \<Rightarrow>
          (case fan_out rest txt
                  (AList.update model_name \<lparr>top_intent = label, all_probs = probs\<rparr> preds) of
             (evs, r) \<Rightarrow> (PredictCalled model_name txt # evs, r)))"

text \<open>
  Lines 129 to 138. Reading the unbound name \<open>collection\<close> raises \<open>NameError\<close> outside
  the \<open>try\<close>. Inside it every exception ends in the annotation: the one that
  \<open>insert_one\<close> raises, and the \<open>KeyError\<close> of \<open>results['_id']\<close> when \<open>insert_one\<close>
  returned without storing \<open>_id\<close>. Only the path without an exception assigns \<open>id\<close> and
  pops \<open>_id\<close>; the \<open>except\<close> branch leaves in the record whatever the call stored.
\<close>

definition db_error_message :: string where
  "db_error_message = ''Failed to log prediction to database.''"

definition log_to_db ::
  "'p app_state \<Rightarrow> 'p world \<Rightarrow> 'p results \<Rightarrow> 'p event list \<times> (exn + 'p results)" where
  "log_to_db st w res =
     (case collection st of
        Unbound \<Rightarrow> ([], Inl (NameError ''collection''))
      | Bound None \<Rightarrow> ([], Inr res)
      | Bound (Some c) \<Rightarrow>
          ([InsertOneCalled res],
           (case insert_one w res of
              InsertRaises stored e \<Rightarrow>
                Inr (res\<lparr>raw_id := stored, db_error := Some db_error_message\<rparr>)
            | InsertReturns stored \<Rightarrow>
                (let res1 = res\<lparr>raw_id := stored\<rparr> in
                 case raw_id res1 of
                   None \<Rightarrow> Inr (res1\<lparr>db_error := Some db_error_message\<rparr>)
                 | Some i \<Rightarrow> Inr (res1\<lparr>id_field := Some (str i), raw_id := None\<rparr>)))))"

text \<open>
  Line 140. \<open>JSONResponse(content=results)\<close> renders the dictionary with \<open>json.dumps\<close>
  when it is constructed, in the handler and outside the \<open>try\<close>. Strings, the integer
  and the values of the models are taken to be renderable; an \<open>ObjectId\<close> still under
  \<open>_id\<close> is not, and \<open>json.dumps\<close> raises \<open>TypeError\<close>.
\<close>

definition render :: "'p results \<Rightarrow> 'p outcome" where
  "render res =
     (case raw_id res of
        Some i \<Rightarrow> Raised (TypeError ''ObjectId'')
      | None \<Rightarrow> JSONResponse res)"

text \<open>The body of \<open>predict(text, owner)\<close>, lines 112 to 140.\<close>

definition predict ::
  "'p app_state \<Rightarrow> 'p world \<Rightarrow> string \<Rightarrow> string \<Rightarrow> 'p event list \<times> 'p outcome" where
  "predict st w txt own =
     (case fan_out (MODELS st) txt [] of
        (evs, Inl e) \<Rightarrow> (evs, Raised e)
      | (evs, Inr preds) \<Rightarrow>
          (let res = \<lparr>text_field = txt, owner = own, predictions = preds,
                      timestamp = int (utcnow w div 1000000),
                      raw_id = None, id_field = None, db_error = None\<rparr>
           in case log_to_db st w res of
                (evs', Inl e) \<Rightarrow> (evs @ evs', Raised e)
              | (evs', Inr res') \<Rightarrow> (evs @ evs', render res')))"

text \<open>
  \<open>POST /predict?text=...\<close>: the framework resolves the dependency \<open>conditional_auth\<close>
  first and calls the handler with its result; an exception of the dependency ends the
  request before the handler runs.
\<close>

definition post_predict ::
  "'p app_state \<Rightarrow> 'p world \<Rightarrow> string \<Rightarrow> 'p event list \<times> 'p outcome" where
  "post_predict st w txt =
     (case conditional_auth st w of
        (evs, Inl failure) \<Rightarrow> (evs, failure)
      | (evs, Inr own) \<Rightarrow>
          (case predict st w txt own of (evs', out) \<Rightarrow> (evs @ evs', out)))"

subsection \<open>A run of the process\<close>

text \<open>
  The process holds the configuration that the module body computed and, beside it, the
  environment variable \<open>ENV\<close> as it is now. Between requests the environment can be
  changed from outside (\<open>Setenv\<close>, as \<open>monkeypatch.setenv\<close> does in the tests). No
  handler assigns a module-level name or reads the environment, so a request leaves the
  process as it found it.
\<close>

record 'p process =
  app :: "'p app_state"
  environ :: "string option"

datatype 'p action =
    Setenv "string option"
  | GetRoot
  | PostPredict "'p world" string

datatype 'p reply =
    RootReply string
  | PredictReply "'p event list" "'p outcome"

definition boot ::
  "string option \<Rightarrow> (string \<Rightarrow> exn + mongo_collection option) \<Rightarrow> (string \<times> 'p model) list
     \<Rightarrow> 'p process" where
  "boot var get_mongo_collection models =
     \<lparr>app = startup var get_mongo_collection models, environ = var\<rparr>"

fun step :: "'p process \<Rightarrow> 'p action \<Rightarrow> 'p process \<times> 'p reply list" where
  "step p (Setenv v) = (p\<lparr>environ := v\<rparr>, [])"
| "step p GetRoot = (p, [RootReply (root (app p))])"
| "step p (PostPredict w txt) =
     (case post_predict (app p) w txt of (evs, out) \<Rightarrow> (p, [PredictReply evs out]))"

fun run :: "'p process \<Rightarrow> 'p action list \<Rightarrow> 'p process \<times> 'p reply list" where
  "run p [] = (p, [])"
| "run p (a # acts) =
     (case step p a of
        (p', rs) \<Rightarrow> (case run p' acts of (p'', rs') \<Rightarrow> (p'', rs @ rs')))"

subsection \<open>Notions of the specification\<close>

text \<open>Every registered model returns on the text.\<close>

definition models_return :: "(string \<times> 'p model) list \<Rightarrow> string \<Rightarrow> bool" where
  "models_return models txt = list_all (\<lambda>(model_name, model). \<not> isl (model txt)) models"

text \<open>The spellings that compare equal to \<open>dev\<close> when case is ignored.\<close>

definition dev_spellings :: "string list" where
  "dev_spellings =
     [''dev'', ''Dev'', ''dEv'', ''deV'', ''DEv'', ''DeV'', ''dEV'', ''DEV'']"

text \<open>The clock readings of the \<open>POST /predict\<close> requests of a run, in order.\<close>

fun clock_readings :: "'p action list \<Rightarrow> nat list" where
  "clock_readings [] = []"
| "clock_readings (PostPredict w txt # acts) = utcnow w # clock_readings acts"
| "clock_readings (a # acts) = clock_readings acts"

text \<open>The timestamps of the records returned in a run, in order.\<close>

fun timestamps :: "'p reply list \<Rightarrow> int list" where
  "timestamps [] = []"
| "timestamps (PredictReply evs (JSONResponse r) # rs) = timestamp r # timestamps rs"
| "timestamps (r # rs) = timestamps rs"

fun is_Setenv :: "'p action \<Rightarrow> bool" where
  "is_Setenv (Setenv v) = True"
| "is_Setenv a = False"

text \<open>The call of \<open>insert_one\<close> raised after it had stored \<open>_id\<close> in the record.\<close>

fun raised_with_id :: "insert_result \<Rightarrow> bool" where
  "raised_with_id (InsertRaises (Some i) e) = True"
| "raised_with_id r = False"

text \<open>The calls of \<open>predict\<close> on the given models, in order.\<close>

definition predict_calls :: "(string \<times> 'p model) list \<Rightarrow> string \<Rightarrow> 'p event list" where
  "predict_calls models txt = map (\<lambda>(model_name, model). PredictCalled model_name txt) models"

subsection \<open>Fixtures\<close>

text \<open>
  Concrete collaborators after tests/teste_api.py: a model that always answers
  \<open>saudacao\<close> (its probabilities written in percent), two models whose \<open>predict\<close>
  raises, a database that connects and one that does not, and the behaviour of the
  verifier, the clock and \<open>insert_one\<close> during one request. In \<open>insert_fails\<close> the insert
  raises as the mock of the tests does, without storing anything; in \<open>server_down\<close> it
  raises as the driver does when it cannot reach the server, with \<open>_id\<close> stored.
\<close>

type_synonym probs = "(string \<times> nat) list"

definition dummy_model :: "probs model" where
  "dummy_model txt = Inr (''saudacao'', [(''saudacao'', 95), (''outro'', 5)])"

definition failing_model :: "probs model" where
  "failing_model txt = Inl (Exception ''inference failed'')"

definition other_failing_model :: "probs model" where
  "other_failing_model txt = Inl (Exception ''out of memory'')"

definition mongo_up :: "string \<Rightarrow> exn + mongo_collection option" where
  "mongo_up name = Inr (Some (Collection name))"

definition mongo_down :: "string \<Rightarrow> exn + mongo_collection option" where
  "mongo_down name = Inl (Exception ''connection refused'')"

definition valid_token :: "probs world" where
  "valid_token =
     \<lparr>verify_token = Inr ''prod_user_123'', utcnow = 1700000000250000,
      insert_one = (\<lambda>r. InsertReturns (Some (ObjectId ''65a1f0c2e4b0a1b2c3d4e5f6'')))\<rparr>"

definition token_missing :: "probs world" where
  "token_missing =
     \<lparr>verify_token = Inl (Exception ''Token missing''), utcnow = 1700000000250000,
      insert_one = (\<lambda>r. InsertReturns (Some (ObjectId ''65a1f0c2e4b0a1b2c3d4e5f6'')))\<rparr>"

definition insert_fails :: "probs world" where
  "insert_fails =
     \<lparr>verify_token = Inr ''prod_user_123'', utcnow = 1700000001750000,
      insert_one = (\<lambda>r. InsertRaises None (Exception ''DB connection error''))\<rparr>"

definition server_down :: "probs world" where
  "server_down =
     \<lparr>verify_token = Inr ''prod_user_123'', utcnow = 1700000001750000,
      insert_one = (\<lambda>r. InsertRaises (Some (ObjectId ''65a1f0c2e4b0a1b2c3d4e5f6''))
                              (Exception ''ServerSelectionTimeoutError''))\<rparr>"

section \<open>Properties\<close>

subsection \<open>The fan-out and the logging step\<close>

lemma fan_out_returns:
  "models_return ms txt \<Longrightarrow> \<exists>evs p. fan_out ms txt preds = (evs, Inr p)"
proof (induction ms arbitrary: preds)
  case Nil
  then show ?case by simp
next
  case (Cons a ms)
  obtain n m where a: "a = (n, m)" by (cases a)
  from Cons.prems a obtain l q where m: "m txt = Inr (l, q)"
    by (cases "m txt") (auto simp: models_return_def)
  from Cons.prems have "models_return ms txt" by (simp add: models_return_def)
  from Cons.IH[OF this] obtain evs p
    where "fan_out ms txt (AList.update n \<lparr>top_intent = l, all_probs = q\<rparr> preds) = (evs, Inr p)"
    by blast
  with a m show ?case by simp
qed

lemma models_return_iff:
  "models_return ms txt \<longleftrightarrow> (\<forall>(n, m) \<in> set ms. \<exists>r. m txt = Inr r)"
proof -
  have "\<not> isl x \<longleftrightarrow> (\<exists>r. x = Inr r)" for x :: "exn + string \<times> 'a"
    by (cases x) simp_all
  then show ?thesis
    by (simp add: models_return_def list_all_iff case_prod_unfold)
qed

lemma fan_out_keys:
  "fan_out ms txt preds = (evs, Inr p) \<Longrightarrow>
     set (map fst p) = set (map fst preds) \<union> set (map fst ms)
     \<and> (distinct (map fst preds) \<longrightarrow> distinct (map fst p))"
proof (induction ms arbitrary: preds evs)
  case Nil
  then show ?case by simp
next
  case (Cons a ms)
  obtain n m where a: "a = (n, m)" by (cases a)
  from Cons.prems a obtain l q where m: "m txt = Inr (l, q)"
    by (cases "m txt") auto
  let ?preds = "AList.update n \<lparr>top_intent = l, all_probs = q\<rparr> preds"
  obtain evs' r' where f: "fan_out ms txt ?preds = (evs', r')" by (cases "fan_out ms txt ?preds")
  with Cons.prems a m have "r' = Inr p" by simp
  with f have "fan_out ms txt ?preds = (evs', Inr p)" by simp
  from Cons.IH[OF this]
  have "set (map fst p) = set (map fst ?preds) \<union> set (map fst ms)"
    and "distinct (map fst ?preds) \<longrightarrow> distinct (map fst p)" by simp_all
  then show ?case using a by (auto simp: AList.update_keys distinct_update dom_update)
qed

lemma fan_out_events:
  "fan_out ms txt preds = (evs, r) \<Longrightarrow> ev \<in> set evs \<Longrightarrow> \<exists>n. ev = PredictCalled n txt"
proof (induction ms arbitrary: preds evs r)
  case Nil
  then show ?case by simp
next
  case (Cons a ms)
  obtain n m where a: "a = (n, m)" by (cases a)
  show ?case
  proof (cases "m txt")
    case (Inl e)
    with Cons.prems a show ?thesis by auto
  next
    case (Inr pr)
    obtain l q where pr: "pr = (l, q)" by (cases pr)
    obtain evs' r' where f: "fan_out ms txt (AList.update n \<lparr>top_intent = l, all_probs = q\<rparr> preds) = (evs', r')"
      by (cases "fan_out ms txt (AList.update n \<lparr>top_intent = l, all_probs = q\<rparr> preds)")
    with Cons.prems a Inr pr have "evs = PredictCalled n txt # evs'" by simp
    with Cons.prems(2) Cons.IH[OF f] show ?thesis by auto
  qed
qed

lemma log_to_db_events:
  "log_to_db st w res = (evs, r) \<Longrightarrow> ev \<in> set evs \<Longrightarrow> ev = InsertOneCalled res"
  by (auto simp: log_to_db_def split: binding.splits option.splits)

lemma fan_out_calls_all:
  "fan_out ms txt preds = (evs, Inr p) \<Longrightarrow> evs = predict_calls ms txt"
proof (induction ms arbitrary: preds evs)
  case Nil
  then show ?case by (simp add: predict_calls_def)
next
  case (Cons a ms)
  obtain n m where a: "a = (n, m)" by (cases a)
  from Cons.prems a obtain l q where m: "m txt = Inr (l, q)"
    by (cases "m txt") auto
  let ?preds = "AList.update n \<lparr>top_intent = l, all_probs = q\<rparr> preds"
  obtain evs' r' where f: "fan_out ms txt ?preds = (evs', r')" by (cases "fan_out ms txt ?preds")
  with Cons.prems a m have r': "r' = Inr p" and evs: "evs = PredictCalled n txt # evs'" by simp_all
  from Cons.IH[OF f[unfolded r']] evs a show ?case by (simp add: predict_calls_def)
qed

lemma fan_out_first_failure:
  "models_return before txt \<Longrightarrow> m txt = Inl e \<Longrightarrow>
     fan_out (before @ (n, m) # after) txt preds
       = (predict_calls before txt @ [PredictCalled n txt], Inl e)"
proof (induction before arbitrary: preds)
  case Nil
  then show ?case by (simp add: predict_calls_def)
next
  case (Cons a before)
  obtain k f where a: "a = (k, f)" by (cases a)
  from Cons.prems(1) a obtain l q where f: "f txt = Inr (l, q)"
    by (cases "f txt") (auto simp: models_return_def)
  from Cons.prems(1) have "models_return before txt" by (simp add: models_return_def)
  from Cons.IH[OF this Cons.prems(2)] a f show ?case by (simp add: predict_calls_def)
qed

lemma first_failure_exists:
  "\<not> models_return ms txt \<Longrightarrow>
     \<exists>before n m after e. ms = before @ (n, m) # after \<and> models_return before txt
        \<and> m txt = Inl e"
proof (induction ms)
  case Nil
  then show ?case by (simp add: models_return_def)
next
  case (Cons a ms)
  obtain k f where a: "a = (k, f)" by (cases a)
  show ?case
  proof (cases "f txt")
    case (Inl e)
    have "a # ms = [] @ (k, f) # ms" using a by simp
    moreover have "models_return [] txt" by (simp add: models_return_def)
    ultimately show ?thesis using Inl by blast
  next
    case (Inr r)
    with Cons.prems a have "\<not> models_return ms txt" by (simp add: models_return_def)
    from Cons.IH[OF this] obtain before n m after e
      where d: "ms = before @ (n, m) # after" "models_return before txt" "m txt = Inl e"
      by blast
    from d(1) have "a # ms = (a # before) @ (n, m) # after" by simp
    moreover from d(2) a Inr have "models_return (a # before) txt"
      by (simp add: models_return_def)
    ultimately show ?thesis using d(3) by blast
  qed
qed

lemma first_failure_unique:
  assumes "ms = before @ (n, m) # after" and "models_return before txt" and "m txt = Inl e"
      and "ms = before' @ (n', m') # after'" and "models_return before' txt"
      and "m' txt = Inl e'"
  shows "before' = before \<and> n' = n \<and> e' = e"
proof -
  from fan_out_first_failure[of before "txt" m e n after "[]", OF assms(2,3)] assms(1)
  have a: "fan_out ms txt [] = (predict_calls before txt @ [PredictCalled n txt], Inl e)"
    by simp
  from fan_out_first_failure[of before' "txt" m' e' n' after' "[]", OF assms(5,6)] assms(4)
  have b: "fan_out ms txt [] = (predict_calls before' txt @ [PredictCalled n' txt], Inl e')"
    by simp
  from a b have c: "predict_calls before txt @ [PredictCalled n txt]
      = predict_calls before' txt @ [PredictCalled n' txt]" and e: "e' = e" by simp_all
  from c have "length before = length before'" and n: "n' = n"
    by (auto simp: predict_calls_def dest: arg_cong[where f = length])
  with assms(1,4) have "before' = before" by (metis append_eq_append_conv)
  with n e show ?thesis by simp
qed

lemma predict_no_verify: "VerifyTokenCalled \<notin> set (fst (predict st w txt own))"
proof
  assume a: "VerifyTokenCalled \<in> set (fst (predict st w txt own))"
  obtain evs r where f: "fan_out (MODELS st) txt [] = (evs, r)" by (cases "fan_out (MODELS st) txt []")
  show False
  proof (cases r)
    case (Inl e)
    with a f have "VerifyTokenCalled \<in> set evs" by (simp add: predict_def)
    with fan_out_events[OF f] show False by blast
  next
    case (Inr preds)
    let ?res = "\<lparr>text_field = txt, owner = own, predictions = preds,
                      timestamp = int (utcnow w div 1000000),
                      raw_id = None, id_field = None, db_error = None\<rparr>"
    obtain evs' r' where l: "log_to_db st w ?res = (evs', r')" by (cases "log_to_db st w ?res")
    with a f Inr have "VerifyTokenCalled \<in> set (evs @ evs')"
      by (cases r') (simp_all add: predict_def)
    with fan_out_events[OF f] log_to_db_events[OF l] show False by auto
  qed
qed

subsection \<open>The handler\<close>

lemma render_cases:
  "render res = JSONResponse res \<and> raw_id res = None
   \<or> render res = Raised (TypeError ''ObjectId'') \<and> raw_id res \<noteq> None"
  by (cases "raw_id res") (simp_all add: render_def)

lemma log_to_db_fields:
  "log_to_db st w res = (evs, Inr res') \<Longrightarrow>
     text_field res' = text_field res \<and> owner res' = owner res
     \<and> predictions res' = predictions res \<and> timestamp res' = timestamp res"
  by (auto simp: log_to_db_def Let_def
           split: binding.splits option.splits insert_result.splits)

lemma predict_not_HTTPException: "snd (predict st w txt own) \<noteq> HTTPException s d"
proof -
  obtain fevs fr where f: "fan_out (MODELS st) txt [] = (fevs, fr)"
    by (cases "fan_out (MODELS st) txt []")
  show ?thesis
  proof (cases fr)
    case (Inl e)
    with f show ?thesis by (simp add: predict_def)
  next
    case (Inr preds)
    let ?res = "\<lparr>text_field = txt, owner = own, predictions = preds,
                      timestamp = int (utcnow w div 1000000),
                      raw_id = None, id_field = None, db_error = None\<rparr>"
    obtain levs lr where l: "log_to_db st w ?res = (levs, lr)" by (cases "log_to_db st w ?res")
    show ?thesis
    proof (cases lr)
      case (Inl e)
      with f \<open>fr = Inr preds\<close> l show ?thesis by (simp add: predict_def)
    next
      case (Inr res')
      with f \<open>fr = Inr preds\<close> l render_cases[of res'] show ?thesis
        by (auto simp: predict_def)
    qed
  qed
qed

lemma predict_status: "status_code (snd (predict st w txt own)) \<in> {200, 500}"
  using predict_not_HTTPException[of st w "txt" own]
  by (cases "snd (predict st w txt own)") auto

lemma predict_returns:
  assumes "models_return (MODELS st) txt" and "collection st \<noteq> Unbound"
      and "\<And>res. \<not> raised_with_id (insert_one w res)"
  shows "\<exists>evs r. predict st w txt own = (evs, JSONResponse r) \<and> owner r = own
           \<and> text_field r = txt \<and> timestamp r = int (utcnow w div 1000000)"
proof -
  from fan_out_returns[OF assms(1)] obtain fevs preds
    where f: "fan_out (MODELS st) txt [] = (fevs, Inr preds)" by blast
  let ?res = "\<lparr>text_field = txt, owner = own, predictions = preds,
                      timestamp = int (utcnow w div 1000000),
                      raw_id = None, id_field = None, db_error = None\<rparr>"
  from assms(2) obtain c where c: "collection st = Bound c" by (cases "collection st") auto
  show ?thesis
  proof (cases c)
    case None
    with f c show ?thesis by (simp add: predict_def log_to_db_def render_def)
  next
    case (Some h)
    show ?thesis
    proof (cases "insert_one w ?res")
      case (InsertReturns stored)
      with f c Some show ?thesis
        by (cases stored) (simp_all add: predict_def log_to_db_def render_def)
    next
      case (InsertRaises stored e)
      with assms(3)[of ?res] have "stored = None" by (cases stored) simp_all
      with f c Some InsertRaises show ?thesis
        by (simp add: predict_def log_to_db_def render_def)
    qed
  qed
qed

lemma predict_response_fields:
  assumes "predict st w txt own = (evs, JSONResponse r)"
  shows "owner r = own \<and> text_field r = txt \<and> timestamp r = int (utcnow w div 1000000)
       \<and> set (map fst (predictions r)) = set (map fst (MODELS st))
       \<and> distinct (map fst (predictions r))"
proof -
  obtain fevs fr where f: "fan_out (MODELS st) txt [] = (fevs, fr)"
    by (cases "fan_out (MODELS st) txt []")
  from assms f obtain preds where fr: "fr = Inr preds"
    by (cases fr) (simp_all add: predict_def)
  let ?res = "\<lparr>text_field = txt, owner = own, predictions = preds,
                      timestamp = int (utcnow w div 1000000),
                      raw_id = None, id_field = None, db_error = None\<rparr>"
  from fan_out_keys[OF f[unfolded fr]]
  have k: "set (map fst preds) = set (map fst (MODELS st))" "distinct (map fst preds)" by simp_all
  obtain levs lr where l: "log_to_db st w ?res = (levs, lr)" by (cases "log_to_db st w ?res")
  from assms f fr l obtain res' where lr: "lr = Inr res'" and rr: "render res' = JSONResponse r"
    by (cases lr) (simp_all add: predict_def)
  from rr render_cases[of res'] have "res' = r" by auto
  with log_to_db_fields[OF l[unfolded lr]] k show ?thesis by simp
qed

lemma predict_first_failure:
  assumes "MODELS st = before @ (n, m) # after" and "models_return before txt"
      and "m txt = Inl e"
  shows "predict st w txt own = (predict_calls before txt @ [PredictCalled n txt], Raised e)"
  using fan_out_first_failure[of before "txt" m e n after "[]", OF assms(2,3)] assms(1)
  by (simp add: predict_def)

lemma predict_raises:
  assumes "\<not> models_return (MODELS st) txt"
  shows "\<exists>before n m after e. MODELS st = before @ (n, m) # after
           \<and> models_return before txt \<and> m txt = Inl e
           \<and> predict st w txt own
                = (predict_calls before txt @ [PredictCalled n txt], Raised e)"
proof -
  from first_failure_exists[OF assms] obtain before n m after e
    where d: "MODELS st = before @ (n, m) # after" "models_return before txt" "m txt = Inl e"
    by blast
  from predict_first_failure[OF d, of w own] d show ?thesis by blast
qed

lemma predict_unbound:
  assumes "models_return (MODELS st) txt" and "collection st = Unbound"
  shows "predict st w txt own
           = (predict_calls (MODELS st) txt, Raised (NameError ''collection''))"
proof -
  from fan_out_returns[OF assms(1)] obtain fevs preds
    where f: "fan_out (MODELS st) txt [] = (fevs, Inr preds)" by blast
  from fan_out_calls_all[OF f] f assms(2) show ?thesis
    by (simp add: predict_def log_to_db_def)
qed

lemma post_predict_authorized:
  "conditional_auth st w = (evs0, Inr own) \<Longrightarrow>
     post_predict st w txt = (evs0 @ fst (predict st w txt own), snd (predict st w txt own))"
  by (simp add: post_predict_def split: prod.splits)

lemma conditional_auth_events:
  "conditional_auth st w = (evs0, r) \<Longrightarrow> set evs0 \<subseteq> {VerifyTokenCalled}"
  by (auto simp: conditional_auth_def split: if_splits sum.splits)

lemma run_app: "app (fst (run p acts)) = app p"
proof (induction acts arbitrary: p)
  case Nil
  then show ?case by simp
next
  case (Cons a acts)
  have "app (fst (step p a)) = app p" by (cases a) (simp_all split: prod.splits)
  with Cons.IH[of "fst (step p a)"] show ?case
    by (cases "step p a"; cases "run (fst (step p a)) acts") simp
qed

subsection \<open>Lower case and the spellings of dev\<close>

lemma lower_char_eq_lower:
  assumes "97 \<le> (of_char d :: nat)" and "(of_char d :: nat) \<le> 122"
  shows "lower_char c = d \<longleftrightarrow> c = d \<or> c = upper_char d"
proof -
  have inj: "(of_char a :: nat) = of_char b \<longleftrightarrow> a = b" for a b :: char by simp
  have lt: "(of_char a :: nat) < 256" for a :: char by simp
  show ?thesis
  proof (cases "65 \<le> (of_char c :: nat) \<and> (of_char c :: nat) \<le> 90")
    case True
    then have lc: "lower_char c = char_of (of_char c + 32 :: nat)" by (simp add: lower_char_def)
    have "of_char (char_of (of_char c + 32 :: nat)) = (of_char c + 32 :: nat)"
      using True by simp
    then have a: "lower_char c = d \<longleftrightarrow> (of_char c + 32 :: nat) = of_char d"
      using lc by (metis inj)
    have ud: "upper_char d = char_of (of_char d - 32 :: nat)" using assms by (simp add: upper_char_def)
    have "of_char (char_of (of_char d - 32 :: nat)) = (of_char d - 32 :: nat)"
      using assms by simp
    then have b: "c = upper_char d \<longleftrightarrow> (of_char c :: nat) = of_char d - 32"
      using ud by (metis inj)
    have "c \<noteq> d" using True assms by auto
    with a b assms True show ?thesis by auto
  next
    case False
    then have lc: "lower_char c = c" by (auto simp: lower_char_def)
    have ud: "upper_char d = char_of (of_char d - 32 :: nat)" using assms by (simp add: upper_char_def)
    have "of_char (char_of (of_char d - 32 :: nat)) = (of_char d - 32 :: nat)"
      using assms by simp
    then have b: "c = upper_char d \<longleftrightarrow> (of_char c :: nat) = of_char d - 32"
      using ud by (metis inj)
    from False assms b have "c \<noteq> upper_char d" by auto
    with lc show ?thesis by auto
  qed
qed

lemma lower_char_d: "lower_char c = CHR ''d'' \<longleftrightarrow> c = CHR ''d'' \<or> c = CHR ''D''"
  using lower_char_eq_lower[of "CHR ''d''" c] by (simp add: upper_char_def char_of_def bit_0)

lemma lower_char_e: "lower_char c = CHR ''e'' \<longleftrightarrow> c = CHR ''e'' \<or> c = CHR ''E''"
  using lower_char_eq_lower[of "CHR ''e''" c] by (simp add: upper_char_def char_of_def bit_0)

lemma lower_char_v: "lower_char c = CHR ''v'' \<longleftrightarrow> c = CHR ''v'' \<or> c = CHR ''V''"
  using lower_char_eq_lower[of "CHR ''v''" c] by (simp add: upper_char_def char_of_def bit_0)

lemma lower_eq_dev: "lower v = ''dev'' \<longleftrightarrow> v \<in> set dev_spellings"
proof
  assume "lower v = ''dev''"
  then obtain a b c where v: "v = [a, b, c]"
    and "lower_char a = CHR ''d''" "lower_char b = CHR ''e''" "lower_char c = CHR ''v''"
    by (auto simp: lower_def map_eq_Cons_conv)
  then show "v \<in> set dev_spellings"
    unfolding lower_char_d lower_char_e lower_char_v dev_spellings_def by auto
next
  assume "v \<in> set dev_spellings"
  then show "lower v = ''dev''"
    by (auto simp: dev_spellings_def lower_def lower_char_def char_of_def bit_0)
qed

lemma read_ENV_dev: "read_ENV var = ''dev'' \<longleftrightarrow> var \<in> Some ` set dev_spellings"
proof (cases var)
  case None
  then show ?thesis by (simp add: read_ENV_def getenv_def lower_def lower_char_def)
next
  case (Some v)
  then show ?thesis by (auto simp: read_ENV_def getenv_def lower_eq_dev)
qed

subsection \<open>Evaluation of the fixtures\<close>

lemmas eval_defs = startup_def read_ENV_def getenv_def lower_def upper_def lower_char_def
  upper_char_def char_of_def bit_0 init_collection_def mongo_up_def mongo_down_def Let_def
  dummy_model_def failing_model_def other_failing_model_def valid_token_def token_missing_def
  insert_fails_def server_down_def post_predict_def conditional_auth_def predict_def
  log_to_db_def render_def db_error_message_def models_return_def predict_calls_def boot_def


section \<open>The claims\<close>


subsection \<open>C1: a failing verifier in enforce mode\<close>

text \<open>
  C1. In enforce mode (the mode is not \<open>dev\<close>), when awaiting \<open>verify_token()\<close> raises,
  \<open>POST /predict\<close> ends in \<open>HTTPException(401, "Authentication failed")\<close>, and the verifier
  is the only collaborator that was called: no model predicted and nothing was inserted.
\<close>

theorem unauthenticated_predict_is_401:
  assumes "ENV st \<noteq> ''dev''" and "verify_token w = Inl e"
  shows "post_predict st w txt = ([VerifyTokenCalled], HTTPException 401 ''Authentication failed'')
       \<and> status_code (snd (post_predict st w txt)) = 401
       \<and> (\<forall>n t. PredictCalled n t \<notin> set (fst (post_predict st w txt)))
       \<and> (\<forall>r. InsertOneCalled r \<notin> set (fst (post_predict st w txt)))"
  using assms by (simp add: post_predict_def conditional_auth_def)

theorem unauthenticated_predict_is_401_witness:
  "ENV (startup (Some ''PROD'') mongo_up [(''dummy_model'', dummy_model)]) \<noteq> ''dev''
   \<and> verify_token token_missing = Inl (Exception ''Token missing'')
   \<and> post_predict (startup (Some ''PROD'') mongo_up [(''dummy_model'', dummy_model)])
         token_missing ''ola''
       = ([VerifyTokenCalled], HTTPException 401 ''Authentication failed'')"
proof -
  have h1: "ENV (startup (Some ''PROD'') mongo_up [(''dummy_model'', dummy_model)]) \<noteq> ''dev''"
    by (simp add: eval_defs)
  have h2: "verify_token token_missing = Inl (Exception ''Token missing'')"
    by (simp add: token_missing_def)
  from unauthenticated_predict_is_401[OF h1 h2, of "''ola''"] h1 h2 show ?thesis by simp
qed


subsection \<open>C2: which modes bypass the gate\<close>

text \<open>
  C2 names \<open>development\<close> as the value that puts the gate in the bypass state. The module
  compares the lower-cased mode with \<open>dev\<close>: started with \<open>ENV=development\<close> the gate
  calls the verifier, and a failing verifier gives 401.
\<close>

theorem development_mode_is_enforced:
  "conditional_auth (startup (Some ''development'') mongo_up [(''dummy_model'', dummy_model)])
       token_missing
     = ([VerifyTokenCalled], Inl (HTTPException 401 ''Authentication failed''))"
  by (simp add: eval_defs)

text \<open>
  C2, amended. The gate is in the bypass state (it returns \<open>dev_user\<close> and calls nothing)
  exactly when the environment holds a value that equals \<open>dev\<close> when case is ignored;
  for every other value, and when the variable is unset, it is in the verify state: it
  calls the verifier and returns its identity or fails with 401.
\<close>

theorem gate_bypass_iff_dev:
  "conditional_auth (startup var get_mongo_collection models) w =
     (if var \<in> Some ` set dev_spellings then ([], Inr ''dev_user'')
      else ([VerifyTokenCalled],
            case verify_token w of
              Inr u \<Rightarrow> Inr u
            | Inl e \<Rightarrow> Inl (HTTPException 401 ''Authentication failed'')))"
proof -
  have "ENV (startup var get_mongo_collection models) = read_ENV var"
    by (simp add: startup_def Let_def)
  then show ?thesis
    by (simp add: conditional_auth_def read_ENV_dev split: sum.splits)
qed

theorem gate_bypass_iff_dev_witness:
  "conditional_auth (startup (Some ''DeV'') mongo_up [(''dummy_model'', dummy_model)]) token_missing
     = ([], Inr ''dev_user'')
   \<and> conditional_auth (startup None mongo_up [(''dummy_model'', dummy_model)]) valid_token
     = ([VerifyTokenCalled], Inr ''prod_user_123'')"
  using gate_bypass_iff_dev[of "Some ''DeV''" mongo_up "[(''dummy_model'', dummy_model)]" token_missing]
    gate_bypass_iff_dev[of None mongo_up "[(''dummy_model'', dummy_model)]" valid_token]
  by (simp add: dev_spellings_def valid_token_def)


subsection \<open>C3: the outcome of the insert\<close>

text \<open>
  What the response holds after \<open>insert_one\<close> was called on the record of an authorized
  request, for each way the call can end: returned with \<open>_id\<close> stored, returned without
  it, raised without it, raised with it.
\<close>

lemma insert_outcome_in_response:
  assumes "conditional_auth st w = (evs0, Inr own)"
      and "post_predict st w txt = (evs, out)"
      and "InsertOneCalled res \<in> set evs"
  shows "(insert_one w res = InsertReturns (Some oid) \<longrightarrow>
            out = JSONResponse (res\<lparr>id_field := Some (str oid)\<rparr>))
       \<and> (insert_one w res = InsertReturns None \<longrightarrow>
            out = JSONResponse (res\<lparr>db_error := Some ''Failed to log prediction to database.''\<rparr>))
       \<and> (insert_one w res = InsertRaises None e \<longrightarrow>
            out = JSONResponse (res\<lparr>db_error := Some ''Failed to log prediction to database.''\<rparr>))
       \<and> (insert_one w res = InsertRaises (Some oid) e \<longrightarrow>
            out = Raised (TypeError ''ObjectId''))
       \<and> raw_id res = None \<and> id_field res = None \<and> db_error res = None"
proof -
  from assms(1,2) have p: "predict st w txt own = (fst (predict st w txt own), out)"
    and evs: "evs = evs0 @ fst (predict st w txt own)"
    by (auto simp: post_predict_authorized)
  obtain fevs fr where f: "fan_out (MODELS st) txt [] = (fevs, fr)"
    by (cases "fan_out (MODELS st) txt []")
  from conditional_auth_events[OF assms(1)] assms(3) evs
  have i: "InsertOneCalled res \<in> set (fst (predict st w txt own))" by auto
  show ?thesis
  proof (cases fr)
    case (Inl e')
    with f have "fst (predict st w txt own) = fevs" by (simp add: predict_def)
    with i fan_out_events[OF f] show ?thesis by blast
  next
    case (Inr preds)
    let ?res = "\<lparr>text_field = txt, owner = own, predictions = preds,
                      timestamp = int (utcnow w div 1000000),
                      raw_id = None, id_field = None, db_error = None\<rparr>"
    obtain levs lr where l: "log_to_db st w ?res = (levs, lr)" by (cases "log_to_db st w ?res")
    from f Inr l have pe: "fst (predict st w txt own) = fevs @ levs"
      by (cases lr) (simp_all add: predict_def)
    with i fan_out_events[OF f] have "InsertOneCalled res \<in> set levs" by auto
    with log_to_db_events[OF l] have res: "res = ?res" and ne: "levs \<noteq> []" by auto
    from l ne obtain c where c: "collection st = Bound (Some c)"
      by (auto simp: log_to_db_def split: binding.splits option.splits)
    have out: "out = (case lr of Inl e' \<Rightarrow> Raised e' | Inr res' \<Rightarrow> render res')"
      using p f Inr l by (cases lr) (simp_all add: predict_def)
    show ?thesis
    proof (cases "insert_one w ?res")
      case (InsertReturns stored)
      with l c have "lr = (case stored of
           None \<Rightarrow> Inr (?res\<lparr>db_error := Some db_error_message\<rparr>)
         | Some k \<Rightarrow> Inr (?res\<lparr>id_field := Some (str k)\<rparr>))"
        by (cases stored) (simp_all add: log_to_db_def)
      with out InsertReturns res show ?thesis
        by (cases stored) (simp_all add: render_def db_error_message_def)
    next
      case (InsertRaises stored e')
      with l c have "lr = Inr (?res\<lparr>raw_id := stored, db_error := Some db_error_message\<rparr>)"
        by (simp add: log_to_db_def)
      with out InsertRaises res show ?thesis
        by (cases stored) (simp_all add: render_def db_error_message_def)
    qed
  qed
qed

text \<open>
  C3 says that when the insert raises the handler does not raise and answers 200 with
  \<open>db_error\<close>. That is what happens when the call raised before it stored anything. When
  it raised with \<open>_id\<close> stored, as the driver does when it cannot reach the server, the
  \<open>except\<close> branch sets \<open>db_error\<close> and leaves the \<open>ObjectId\<close> in the record, and the
  \<open>JSONResponse\<close> of line 140, outside the \<open>try\<close>, raises \<open>TypeError\<close>: status 500.
\<close>

theorem failed_insert_with_id_is_500:
  "post_predict (startup (Some ''dev'') mongo_up [(''dummy_model'', dummy_model)])
       server_down ''ola''
     = ([PredictCalled ''dummy_model'' ''ola'',
         InsertOneCalled
           \<lparr>text_field = ''ola'', owner = ''dev_user'',
            predictions = [(''dummy_model'',
               \<lparr>top_intent = ''saudacao'',
                all_probs = [(''saudacao'', 95), (''outro'', 5)]\<rparr>)],
            timestamp = 1700000001, raw_id = None, id_field = None, db_error = None\<rparr>],
        Raised (TypeError ''ObjectId''))
   \<and> insert_one server_down
         \<lparr>text_field = ''ola'', owner = ''dev_user'',
          predictions = [(''dummy_model'',
             \<lparr>top_intent = ''saudacao'',
              all_probs = [(''saudacao'', 95), (''outro'', 5)]\<rparr>)],
          timestamp = 1700000001, raw_id = None, id_field = None, db_error = None\<rparr>
       = InsertRaises (Some (ObjectId ''65a1f0c2e4b0a1b2c3d4e5f6''))
           (Exception ''ServerSelectionTimeoutError'')
   \<and> status_code (snd (post_predict
         (startup (Some ''dev'') mongo_up [(''dummy_model'', dummy_model)])
         server_down ''ola'')) = 500"
  by (simp add: eval_defs)


subsection \<open>C4: one prediction per model\<close>

text \<open>
  A returned record has one entry in \<open>predictions\<close> for each name in the registry and no
  other; with an empty registry the loop does nothing and, when \<open>collection\<close> is bound
  and the insert does not raise with \<open>_id\<close> stored, the response is 200 with
  \<open>predictions = {}\<close>.
\<close>

lemma returned_predictions_one_per_model:
  assumes "conditional_auth st w = (evs0, Inr own)"
      and "snd (post_predict st w txt) = JSONResponse r"
  shows "set (map fst (predictions r)) = set (map fst (MODELS st))
       \<and> distinct (map fst (predictions r))"
proof -
  from assms have "snd (predict st w txt own) = JSONResponse r"
    by (simp add: post_predict_authorized)
  then have "predict st w txt own = (fst (predict st w txt own), JSONResponse r)"
    by (cases "predict st w txt own") simp
  from predict_response_fields[OF this] show ?thesis by simp
qed

lemma empty_registry_bound_collection:
  assumes "conditional_auth st w = (evs0, Inr own)"
      and "MODELS st = []" and "collection st \<noteq> Unbound"
      and "\<And>res. \<not> raised_with_id (insert_one w res)"
  shows "\<exists>r. snd (post_predict st w txt) = JSONResponse r \<and> predictions r = []"
proof -
  from assms(2) have "models_return (MODELS st) txt" by (simp add: models_return_def)
  from predict_returns[OF this assms(3,4), of own] obtain evs r
    where p: "predict st w txt own = (evs, JSONResponse r)" by blast
  from predict_response_fields[OF p] assms(2) have "predictions r = []" by simp
  with p post_predict_authorized[OF assms(1), of "txt"] show ?thesis by simp
qed

text \<open>
  C4 says that with an empty registry the status is still 200. When
  \<open>get_mongo_collection\<close> raised at import time the name \<open>collection\<close> is unbound, and an
  authorized request to a process with no models ends in \<open>NameError\<close>, status 500, at the
  guard \<open>collection is not None\<close> that was written to protect the insert.
\<close>

theorem empty_registry_unbound_collection_is_500:
  "post_predict (startup None mongo_down ([] :: (string \<times> probs model) list)) valid_token ''ola''
     = ([VerifyTokenCalled], Raised (NameError ''collection''))
   \<and> status_code (snd (post_predict (startup None mongo_down ([] :: (string \<times> probs model) list))
                         valid_token ''ola'')) = 500"
  by (simp add: eval_defs)


subsection \<open>C5: the bypass state\<close>

text \<open>
  C5. In bypass mode the gate returns \<open>dev_user\<close> without calling the verifier, whatever
  the verifier would do, and \<open>POST /predict\<close> never answers 401: the request ends as it
  would with any other verifier, and the verifier is not in its call trace.
\<close>

theorem bypass_never_401:
  assumes "ENV st = ''dev''"
  shows "conditional_auth st w = ([], Inr ''dev_user'')
       \<and> status_code (snd (post_predict st w txt)) \<noteq> 401
       \<and> VerifyTokenCalled \<notin> set (fst (post_predict st w txt))
       \<and> post_predict st (w\<lparr>verify_token := v\<rparr>) txt = post_predict st w txt"
proof -
  have a: "conditional_auth st w' = ([], Inr ''dev_user'')" for w' :: "'a world"
    using assms by (simp add: conditional_auth_def)
  have pp: "post_predict st w' txt = predict st w' txt ''dev_user''" for w' :: "'a world"
    using post_predict_authorized[OF a] by simp
  have s: "status_code (snd (predict st w txt ''dev_user'')) \<noteq> 401"
    using predict_status[of st w "txt" "''dev_user''"] by auto
  have l: "log_to_db st (w\<lparr>verify_token := v\<rparr>) res = log_to_db st w res" for res
    by (simp add: log_to_db_def split: binding.splits option.splits insert_result.splits)
  have i: "predict st (w\<lparr>verify_token := v\<rparr>) txt own = predict st w txt own" for own
    by (simp add: predict_def l Let_def split: prod.splits sum.splits)
  note nv = predict_no_verify[of st w "txt" "''dev_user''"]
  from a pp s i nv show ?thesis by simp
qed

theorem bypass_never_401_witness:
  "ENV (startup (Some ''DEV'') mongo_up [(''dummy_model'', dummy_model)]) = ''dev''
   \<and> status_code (snd (post_predict (startup (Some ''DEV'') mongo_up [(''dummy_model'', dummy_model)])
                         token_missing ''ola'')) \<noteq> 401
   \<and> VerifyTokenCalled \<notin> set (fst (post_predict
         (startup (Some ''DEV'') mongo_up [(''dummy_model'', dummy_model)]) token_missing ''ola''))"
proof -
  have h: "ENV (startup (Some ''DEV'') mongo_up [(''dummy_model'', dummy_model)]) = ''dev''"
    by (simp add: eval_defs)
  from bypass_never_401[OF h, of token_missing "''ola''"] h show ?thesis by simp
qed


subsection \<open>C6: the owner in enforce mode\<close>

text \<open>
  C6 promises status 200 whenever the verifier succeeds. A model whose \<open>predict\<close> raises
  ends the request with that exception: with a valid token and a failing model the
  status is not 200.
\<close>

theorem valid_token_failing_model_not_200:
  "ENV (startup (Some ''prod'') mongo_up [(''dummy_model'', failing_model)]) \<noteq> ''dev''
   \<and> verify_token valid_token = Inr ''prod_user_123''
   \<and> snd (post_predict (startup (Some ''prod'') mongo_up [(''dummy_model'', failing_model)])
             valid_token ''ola'') = Raised (Exception ''inference failed'')
   \<and> status_code (snd (post_predict
         (startup (Some ''prod'') mongo_up [(''dummy_model'', failing_model)])
             valid_token ''ola'')) \<noteq> 200"
  by (simp add: eval_defs)

text \<open>
  C6, amended. In enforce mode, for every identity \<open>U\<close>: if the verifier returns \<open>U\<close>,
  every loaded model returns on the text, \<open>collection\<close> was bound at import time and
  \<open>insert_one\<close> does not raise with \<open>_id\<close> stored in the record, then \<open>POST /predict\<close>
  answers 200 and the \<open>owner\<close> of the response is \<open>U\<close>.
\<close>

theorem valid_token_owner:
  assumes "ENV st \<noteq> ''dev''" and "verify_token w = Inr U"
      and "models_return (MODELS st) txt" and "collection st \<noteq> Unbound"
      and "\<forall>res. \<not> raised_with_id (insert_one w res)"
  shows "\<exists>r. snd (post_predict st w txt) = JSONResponse r \<and> owner r = U
           \<and> status_code (snd (post_predict st w txt)) = 200"
proof -
  from assms(1,2) have "conditional_auth st w = ([VerifyTokenCalled], Inr U)"
    by (simp add: conditional_auth_def)
  from post_predict_authorized[OF this]
  have "snd (post_predict st w txt) = snd (predict st w txt U)" by simp
  moreover from assms(5) have "\<not> raised_with_id (insert_one w res)" for res by simp
  from predict_returns[OF assms(3,4) this, of U]
  have "\<exists>evs r. predict st w txt U = (evs, JSONResponse r) \<and> owner r = U" by blast
  ultimately show ?thesis by auto
qed

theorem valid_token_owner_witness:
  "ENV (startup (Some ''prod'') mongo_up [(''dummy_model'', dummy_model)]) \<noteq> ''dev''
   \<and> verify_token insert_fails = Inr ''prod_user_123''
   \<and> models_return (MODELS (startup (Some ''prod'') mongo_up [(''dummy_model'', dummy_model)])) ''ola''
   \<and> collection (startup (Some ''prod'') mongo_up [(''dummy_model'', dummy_model)]) \<noteq> Unbound
   \<and> (\<forall>res. \<not> raised_with_id (insert_one insert_fails res))
   \<and> (\<exists>r. snd (post_predict (startup (Some ''prod'') mongo_up [(''dummy_model'', dummy_model)])
                  insert_fails ''ola'') = JSONResponse r \<and> owner r = ''prod_user_123'')"
proof -
  let ?st = "startup (Some ''prod'') mongo_up [(''dummy_model'', dummy_model)]"
  have h1: "ENV ?st \<noteq> ''dev''" by (simp add: eval_defs)
  have h2: "verify_token insert_fails = Inr ''prod_user_123''" by (simp add: insert_fails_def)
  have h3: "models_return (MODELS ?st) ''ola''" by (simp add: eval_defs)
  have h4: "collection ?st \<noteq> Unbound" by (simp add: eval_defs)
  have h5: "\<forall>res. \<not> raised_with_id (insert_one insert_fails res)"
    by (simp add: insert_fails_def)
  from valid_token_owner[OF h1 h2 h3 h4 h5] h1 h2 h3 h4 h5 show ?thesis by blast
qed


subsection \<open>C7: the collection that was never bound\<close>

text \<open>
  C7 says that, once the connection failed at import time, every authorized request
  raises \<open>NameError\<close> at the guard. A request whose model raises does not reach the
  guard: it ends with the model's exception.
\<close>

theorem unbound_collection_model_raises_first:
  "collection (startup None mongo_down [(''dummy_model'', failing_model)]) = Unbound
   \<and> conditional_auth (startup None mongo_down [(''dummy_model'', failing_model)]) valid_token
       = ([VerifyTokenCalled], Inr ''prod_user_123'')
   \<and> snd (post_predict (startup None mongo_down [(''dummy_model'', failing_model)])
             valid_token ''ola'') \<noteq> Raised (NameError ''collection'')"
  by (simp add: eval_defs)

text \<open>
  C7, amended. If \<open>get_mongo_collection\<close> raises at import time, \<open>collection\<close> is unbound
  in every state the process reaches; every later \<open>POST /predict\<close> that passes
  authorization ends in an unhandled exception, status 500, never in a 200 response
  with an annotation. When every model returned, all models were called and the
  exception is the \<open>NameError\<close> of the guard \<open>collection is not None\<close>. Otherwise it is
  the exception of the first failing model, the one whose predecessors in the registry
  all return, and the models after it are not called.
\<close>

theorem unbound_collection_never_200:
  assumes "get_mongo_collection (upper (read_ENV var) @ ''_intent_logs'') = Inl e"
      and "st = app (fst (run (boot var get_mongo_collection models) acts))"
      and "conditional_auth st w = (evs0, Inr own)"
  shows "collection st = Unbound
       \<and> status_code (snd (post_predict st w txt)) = 500
       \<and> (models_return (MODELS st) txt \<longrightarrow>
             post_predict st w txt
               = (evs0 @ predict_calls (MODELS st) txt, Raised (NameError ''collection'')))
       \<and> (\<not> models_return (MODELS st) txt \<longrightarrow>
             (\<exists>before n m after e'.
                 MODELS st = before @ (n, m) # after \<and> models_return before txt
                 \<and> m txt = Inl e'))
       \<and> (\<forall>before n m after e'.
             MODELS st = before @ (n, m) # after \<and> models_return before txt
             \<and> m txt = Inl e' \<longrightarrow>
             post_predict st w txt
               = (evs0 @ predict_calls before txt @ [PredictCalled n txt], Raised e'))"
proof -
  from assms(2) have st: "st = startup var get_mongo_collection models"
    by (simp add: run_app boot_def)
  with assms(1) have u: "collection st = Unbound"
    by (simp add: startup_def init_collection_def Let_def)
  note pp = post_predict_authorized[OF assms(3), of "txt"]
  have a: "post_predict st w txt
             = (evs0 @ predict_calls (MODELS st) txt, Raised (NameError ''collection''))"
    if "models_return (MODELS st) txt"
    using predict_unbound[OF that u, of w own] pp by simp
  have b: "post_predict st w txt
             = (evs0 @ predict_calls before txt @ [PredictCalled n txt], Raised e')"
    if "MODELS st = before @ (n, m) # after" "models_return before txt" "m txt = Inl e'"
    for before n m after e'
    using predict_first_failure[OF that, of w own] pp by simp
  have c: "\<exists>before n m after e'.
             MODELS st = before @ (n, m) # after \<and> models_return before txt \<and> m txt = Inl e'"
    if "\<not> models_return (MODELS st) txt"
    using first_failure_exists[OF that] .
  have "status_code (snd (post_predict st w txt)) = 500"
  proof (cases "models_return (MODELS st) txt")
    case True
    from a[OF True] show ?thesis by simp
  next
    case False
    from c[OF False] obtain before n m after e'
      where "MODELS st = before @ (n, m) # after" "models_return before txt" "m txt = Inl e'"
      by blast
    from b[OF this] show ?thesis by simp
  qed
  with u a b c show ?thesis by blast
qed

theorem unbound_collection_never_200_witness:
  "mongo_down (upper (read_ENV None) @ ''_intent_logs'') = Inl (Exception ''connection refused'')
   \<and> post_predict
        (app (fst (run (boot None mongo_down [(''dummy_model'', dummy_model)])
                       [PostPredict valid_token ''ola''])))
        valid_token ''ola''
       = ([VerifyTokenCalled, PredictCalled ''dummy_model'' ''ola''],
          Raised (NameError ''collection''))
   \<and> post_predict
        (app (fst (run (boot None mongo_down
                          [(''dummy_model'', dummy_model), (''broken'', failing_model),
                           (''worse'', other_failing_model)])
                       [PostPredict valid_token ''ola''])))
        valid_token ''ola''
       = ([VerifyTokenCalled, PredictCalled ''dummy_model'' ''ola'',
           PredictCalled ''broken'' ''ola''],
          Raised (Exception ''inference failed''))"
proof -
  let ?ms1 = "[(''dummy_model'', dummy_model)]"
  let ?ms2 = "[(''dummy_model'', dummy_model), (''broken'', failing_model),
               (''worse'', other_failing_model)]"
  let ?st1 = "app (fst (run (boot None mongo_down ?ms1) [PostPredict valid_token ''ola'']))"
  let ?st2 = "app (fst (run (boot None mongo_down ?ms2) [PostPredict valid_token ''ola'']))"
  have st1: "?st1 = startup None mongo_down ?ms1" unfolding run_app boot_def by simp
  have st2: "?st2 = startup None mongo_down ?ms2" unfolding run_app boot_def by simp
  have h1: "mongo_down (upper (read_ENV None) @ ''_intent_logs'')
              = Inl (Exception ''connection refused'')"
    by (simp add: mongo_down_def)
  have a1: "conditional_auth ?st1 valid_token = ([VerifyTokenCalled], Inr ''prod_user_123'')"
    unfolding st1 by (simp add: eval_defs)
  have a2: "conditional_auth ?st2 valid_token = ([VerifyTokenCalled], Inr ''prod_user_123'')"
    unfolding st2 by (simp add: eval_defs)
  have m1: "models_return (MODELS ?st1) ''ola''"
    unfolding st1 by (simp add: eval_defs)
  have d2: "MODELS ?st2 = ?ms1 @ (''broken'', failing_model) # [(''worse'', other_failing_model)]"
    unfolding st2 by (simp add: startup_def Let_def)
  have r2: "models_return ?ms1 ''ola''" by (simp add: eval_defs)
  have f2: "failing_model ''ola'' = Inl (Exception ''inference failed'')"
    by (simp add: failing_model_def)
  have c1: "post_predict ?st1 valid_token ''ola''
      = ([VerifyTokenCalled] @ predict_calls (MODELS ?st1) ''ola'',
         Raised (NameError ''collection''))"
    using unbound_collection_never_200[OF h1 refl a1, of "''ola''"] m1 by blast
  have c2: "post_predict ?st2 valid_token ''ola''
      = ([VerifyTokenCalled] @ predict_calls ?ms1 ''ola'' @ [PredictCalled ''broken'' ''ola''],
         Raised (Exception ''inference failed''))"
    using unbound_collection_never_200[OF h1 refl a2, of "''ola''"] d2 r2 f2 by blast
  have p1: "predict_calls (MODELS ?st1) ''ola'' = [PredictCalled ''dummy_model'' ''ola'']"
    unfolding st1 by (simp add: startup_def Let_def predict_calls_def)
  have p2: "predict_calls ?ms1 ''ola'' = [PredictCalled ''dummy_model'' ''ola'']"
    by (simp add: predict_calls_def)
  from h1 c1 c2 p1 p2 show ?thesis by simp
qed


subsection \<open>C8: a model that raises\<close>

text \<open>
  C8. If the \<open>predict\<close> of a registered model raises on the text of an authorized
  request, the handler ends with the exception of the first model that raises, the one
  whose predecessors in the registry all return: the models before it and that model
  are the only collaborators called in the handler, so no later model is called and
  \<open>insert_one\<close> is not called, and there is no response, hence no record and no partial
  \<open>predictions\<close> for the client. In particular, when the models before the given one
  return, its own exception is the one that leaves the handler.
\<close>

theorem model_exception_propagates:
  assumes "conditional_auth st w = (evs0, Inr own)"
      and "(n, m) \<in> set (MODELS st)" and "m txt = Inl e"
  shows "(\<exists>before n' m' after e'.
            MODELS st = before @ (n', m') # after \<and> models_return before txt
            \<and> m' txt = Inl e'
            \<and> post_predict st w txt
                = (evs0 @ predict_calls before txt @ [PredictCalled n' txt], Raised e'))
       \<and> (\<forall>before after.
            MODELS st = before @ (n, m) # after \<and> models_return before txt \<longrightarrow>
            post_predict st w txt
              = (evs0 @ predict_calls before txt @ [PredictCalled n txt], Raised e))
       \<and> (\<forall>r. snd (post_predict st w txt) \<noteq> JSONResponse r)
       \<and> status_code (snd (post_predict st w txt)) = 500
       \<and> (\<forall>r. InsertOneCalled r \<notin> set (fst (post_predict st w txt)))"
proof -
  note pp = post_predict_authorized[OF assms(1), of "txt"]
  from assms(2,3) have "\<not> models_return (MODELS st) txt"
    unfolding models_return_iff by force
  from first_failure_exists[OF this] obtain before n' m' after e'
    where d: "MODELS st = before @ (n', m') # after" "models_return before txt"
      "m' txt = Inl e'"
    by blast
  from predict_first_failure[OF d, of w own] pp
  have p: "post_predict st w txt
             = (evs0 @ predict_calls before txt @ [PredictCalled n' txt], Raised e')"
    by simp
  have q: "post_predict st w txt
             = (evs0 @ predict_calls b txt @ [PredictCalled n txt], Raised e)"
    if "MODELS st = b @ (n, m) # a" "models_return b txt" for b a
    using predict_first_failure[OF that assms(3), of w own] pp by simp
  from conditional_auth_events[OF assms(1)]
  have "InsertOneCalled r \<notin> set evs0" for r by auto
  with p have ni: "InsertOneCalled r \<notin> set (fst (post_predict st w txt))" for r
    by (auto simp: predict_calls_def)
  from p have nr: "snd (post_predict st w txt) \<noteq> JSONResponse r" for r by simp
  from p have s: "status_code (snd (post_predict st w txt)) = 500" by simp
  from d p have "\<exists>before n' m' after e'.
            MODELS st = before @ (n', m') # after \<and> models_return before txt
            \<and> m' txt = Inl e'
            \<and> post_predict st w txt
                = (evs0 @ predict_calls before txt @ [PredictCalled n' txt], Raised e')"
    by blast
  with q ni nr s show ?thesis by blast
qed

theorem model_exception_propagates_witness:
  "conditional_auth (startup (Some ''dev'') mongo_up
        [(''dummy_model'', dummy_model), (''broken'', failing_model),
         (''worse'', other_failing_model)]) valid_token
      = ([], Inr ''dev_user'')
   \<and> failing_model ''ola'' = Inl (Exception ''inference failed'')
   \<and> models_return [(''dummy_model'', dummy_model)] ''ola''
   \<and> post_predict (startup (Some ''dev'') mongo_up
        [(''dummy_model'', dummy_model), (''broken'', failing_model),
         (''worse'', other_failing_model)]) valid_token ''ola''
       = ([PredictCalled ''dummy_model'' ''ola'', PredictCalled ''broken'' ''ola''],
          Raised (Exception ''inference failed''))"
proof -
  let ?ms1 = "[(''dummy_model'', dummy_model)]"
  let ?st = "startup (Some ''dev'') mongo_up
        [(''dummy_model'', dummy_model), (''broken'', failing_model),
         (''worse'', other_failing_model)]"
  have h1: "conditional_auth ?st valid_token = ([], Inr ''dev_user'')"
    by (simp add: eval_defs)
  have h2: "(''broken'', failing_model) \<in> set (MODELS ?st)"
    by (simp add: startup_def Let_def)
  have h3: "failing_model ''ola'' = Inl (Exception ''inference failed'')"
    by (simp add: failing_model_def)
  have d: "MODELS ?st = ?ms1 @ (''broken'', failing_model) # [(''worse'', other_failing_model)]"
    by (simp add: startup_def Let_def)
  have r: "models_return ?ms1 ''ola''" by (simp add: eval_defs)
  have c: "post_predict ?st valid_token ''ola''
      = ([] @ predict_calls ?ms1 ''ola'' @ [PredictCalled ''broken'' ''ola''],
         Raised (Exception ''inference failed''))"
    using model_exception_propagates[OF h1 h2 h3] d r by blast
  have p: "predict_calls ?ms1 ''ola'' = [PredictCalled ''dummy_model'' ''ola'']"
    by (simp add: predict_calls_def)
  from h1 h3 r c p show ?thesis by simp
qed


subsection \<open>C9: the mode is read once\<close>

lemma step_app: "app (fst (step p a)) = app p"
  by (cases a) (simp_all split: prod.splits)

lemma step_replies: "app p = app q \<Longrightarrow> snd (step p a) = snd (step q a)"
  by (cases a) (simp_all split: prod.splits)

lemma run_replies: "app p = app q \<Longrightarrow> snd (run p acts) = snd (run q acts)"
proof (induction acts arbitrary: p q)
  case Nil
  then show ?case by simp
next
  case (Cons a acts)
  from Cons.prems have "app (fst (step p a)) = app (fst (step q a))"
    by (simp add: step_app)
  from Cons.IH[OF this] step_replies[OF Cons.prems, of a] show ?case
    by (cases "step p a"; cases "step q a";
        cases "run (fst (step p a)) acts"; cases "run (fst (step q a)) acts") simp
qed

lemma run_without_Setenv:
  "snd (run p acts) = snd (run p (filter (\<lambda>a. \<not> is_Setenv a) acts))"
proof (induction acts arbitrary: p)
  case Nil
  then show ?case by simp
next
  case (Cons a acts)
  show ?case
  proof (cases a)
    case (Setenv v)
    have "app (p\<lparr>environ := v\<rparr>) = app p" by simp
    from run_replies[OF this, of acts]
    have e: "snd (run (p\<lparr>environ := v\<rparr>) acts) = snd (run p acts)" .
    have "snd (run p (a # acts)) = snd (run (p\<lparr>environ := v\<rparr>) acts)"
      using Setenv by (cases "run (p\<lparr>environ := v\<rparr>) acts") simp
    with e Cons.IH[of p] Setenv show ?thesis by simp
  next
    case GetRoot
    with Cons.IH[of p] show ?thesis
      by (cases "run p acts"; cases "run p (filter (\<lambda>a. \<not> is_Setenv a) acts)") simp
  next
    case (PostPredict w t)
    with Cons.IH[of p] show ?thesis
      by (cases "post_predict (app p) w t"; cases "run p acts";
          cases "run p (filter (\<lambda>a. \<not> is_Setenv a) acts)") simp
  qed
qed

text \<open>
  C9. The mode is read when the module is imported and nowhere else. After any sequence
  of requests and of changes to the environment variable, the process still holds the
  mode it read at import time: the health message names it, the gate decides as it did
  at the start, and the replies of the whole run are those of the same run without the
  changes to the environment.
\<close>

theorem mode_fixed_at_startup:
  "ENV (app (fst (run (boot var get_mongo_collection models) acts))) = read_ENV var
   \<and> root (app (fst (run (boot var get_mongo_collection models) acts)))
       = ''Basic ML App is running in '' @ read_ENV var @ '' mode''
   \<and> conditional_auth (app (fst (run (boot var get_mongo_collection models) acts))) w
       = conditional_auth (startup var get_mongo_collection models) w
   \<and> snd (run (boot var get_mongo_collection models) acts)
       = snd (run (boot var get_mongo_collection models) (filter (\<lambda>a. \<not> is_Setenv a) acts))"
proof -
  have "app (fst (run (boot var get_mongo_collection models) acts))
          = startup var get_mongo_collection models"
    by (simp add: run_app boot_def)
  moreover have "ENV (startup var get_mongo_collection models) = read_ENV var"
    by (simp add: startup_def Let_def)
  ultimately show ?thesis
    using run_without_Setenv[of "boot var get_mongo_collection models" acts]
    by (simp add: root_def)
qed

theorem mode_fixed_at_startup_witness:
  "snd (run (boot (Some ''prod'') mongo_up [(''dummy_model'', dummy_model)])
          [PostPredict token_missing ''ola'', Setenv (Some ''dev''),
           PostPredict token_missing ''ola'', GetRoot])
     = [PredictReply [VerifyTokenCalled] (HTTPException 401 ''Authentication failed''),
        PredictReply [VerifyTokenCalled] (HTTPException 401 ''Authentication failed''),
        RootReply ''Basic ML App is running in prod mode'']"
proof -
  have "snd (run (boot (Some ''prod'') mongo_up [(''dummy_model'', dummy_model)])
          [PostPredict token_missing ''ola'', PostPredict token_missing ''ola'', GetRoot])
     = [PredictReply [VerifyTokenCalled] (HTTPException 401 ''Authentication failed''),
        PredictReply [VerifyTokenCalled] (HTTPException 401 ''Authentication failed''),
        RootReply ''Basic ML App is running in prod mode'']"
    by (simp add: eval_defs root_def)
  with mode_fixed_at_startup[of "Some ''prod''" mongo_up "[(''dummy_model'', dummy_model)]"
      "[PostPredict token_missing ''ola'', Setenv (Some ''dev''),
        PostPredict token_missing ''ola'', GetRoot]" token_missing]
  show ?thesis by simp
qed


subsection \<open>C10: timestamps\<close>

lemma timestamps_append: "timestamps (rs @ rs') = timestamps rs @ timestamps rs'"
  by (induction rs rule: timestamps.induct) simp_all

lemma post_predict_timestamp:
  assumes "post_predict st w txt = (evs, JSONResponse r)"
  shows "timestamp r = int (utcnow w div 1000000)"
proof (cases "conditional_auth st w")
  case (Pair evs0 a)
  show ?thesis
  proof (cases a)
    case (Inl failure)
    with Pair assms have "failure = JSONResponse r" by (simp add: post_predict_def)
    with Pair Inl show ?thesis
      by (auto simp: conditional_auth_def split: if_splits sum.splits)
  next
    case (Inr own)
    with Pair assms post_predict_authorized[of st w evs0 own "txt"]
    have "predict st w txt own = (fst (predict st w txt own), JSONResponse r)"
      by (cases "predict st w txt own") simp
    from predict_response_fields[OF this] show ?thesis by simp
  qed
qed

lemma step_timestamps:
  "timestamps (snd (step p a)) = []
   \<or> (\<exists>w t. a = PostPredict w t \<and> timestamps (snd (step p a)) = [int (utcnow w div 1000000)])"
proof (cases a)
  case (PostPredict w t)
  obtain evs out where pp: "post_predict (app p) w t = (evs, out)"
    by (cases "post_predict (app p) w t")
  show ?thesis
  proof (cases out)
    case (JSONResponse r)
    with pp post_predict_timestamp[of "app p" w t evs r] PostPredict show ?thesis by simp
  qed (use pp PostPredict in simp_all)
qed simp_all

lemma run_timestamps_from_clock:
  "t \<in> set (timestamps (snd (run p acts))) \<Longrightarrow>
     \<exists>c \<in> set (clock_readings acts). t = int (c div 1000000)"
proof (induction acts arbitrary: p)
  case Nil
  then show ?case by simp
next
  case (Cons a acts)
  obtain p' rs where s: "step p a = (p', rs)" by (cases "step p a")
  obtain p'' rs' where r: "run p' acts = (p'', rs')" by (cases "run p' acts")
  from Cons.prems s r have "t \<in> set (timestamps rs) \<or> t \<in> set (timestamps rs')"
    by (simp add: timestamps_append)
  then show ?case
  proof
    assume "t \<in> set (timestamps rs)"
    with step_timestamps[of p a] s obtain w tx
      where "a = PostPredict w tx" "t = int (utcnow w div 1000000)" by auto
    then show ?thesis by simp
  next
    assume "t \<in> set (timestamps rs')"
    with Cons.IH[of p'] r obtain c
      where "c \<in> set (clock_readings acts)" "t = int (c div 1000000)" by auto
    then show ?thesis by (cases a) auto
  qed
qed

lemma run_timestamps_sorted:
  "sorted (clock_readings acts) \<Longrightarrow> sorted (timestamps (snd (run p acts)))"
proof (induction acts arbitrary: p)
  case Nil
  then show ?case by simp
next
  case (Cons a acts)
  obtain p' rs where s: "step p a = (p', rs)" by (cases "step p a")
  obtain p'' rs' where r: "run p' acts = (p'', rs')" by (cases "run p' acts")
  from Cons.prems have tl: "sorted (clock_readings acts)" by (cases a) simp_all
  from Cons.IH[OF tl, of p'] r have srt: "sorted (timestamps rs')" by simp
  have ts: "timestamps (snd (run p (a # acts))) = timestamps rs @ timestamps rs'"
    using s r by (simp add: timestamps_append)
  from step_timestamps[of p a] s
  consider "timestamps rs = []"
    | w tx where "a = PostPredict w tx" "timestamps rs = [int (utcnow w div 1000000)]"
    by auto
  then show ?case
  proof cases
    case 1
    with ts srt show ?thesis by simp
  next
    case 2
    have "int (utcnow w div 1000000) \<le> t'" if "t' \<in> set (timestamps rs')" for t'
    proof -
      from that r run_timestamps_from_clock[of t' p' acts] obtain c
        where c: "c \<in> set (clock_readings acts)" "t' = int (c div 1000000)" by auto
      from Cons.prems 2(1) c(1) have "utcnow w \<le> c" by simp
      then have "utcnow w div 1000000 \<le> c div 1000000" by (rule div_le_mono)
      with c(2) show ?thesis by simp
    qed
    with ts srt 2(2) show ?thesis by simp
  qed
qed

text \<open>
  C10. The \<open>timestamp\<close> of every returned record is a non-negative integer, the whole
  seconds of the clock reading taken when the record was assembled; and when the clock
  readings of the requests of a run do not decrease, neither do the timestamps of the
  records returned in that run.
\<close>

theorem timestamps_nonneg_monotone:
  "(\<forall>t \<in> set (timestamps (snd (run p acts))).
       0 \<le> t \<and> (\<exists>c \<in> set (clock_readings acts). t = int (c div 1000000)))
   \<and> (sorted (clock_readings acts) \<longrightarrow> sorted (timestamps (snd (run p acts))))"
proof -
  have "0 \<le> t \<and> (\<exists>c \<in> set (clock_readings acts). t = int (c div 1000000))"
    if "t \<in> set (timestamps (snd (run p acts)))" for t
    using run_timestamps_from_clock[OF that] by auto
  with run_timestamps_sorted[of acts p] show ?thesis by blast
qed

theorem timestamps_nonneg_monotone_witness:
  "sorted (clock_readings
      [PostPredict valid_token ''ola'', GetRoot, PostPredict insert_fails ''ola''])
   \<and> timestamps (snd (run (boot (Some ''dev'') mongo_up [(''dummy_model'', dummy_model)])
      [PostPredict valid_token ''ola'', GetRoot, PostPredict insert_fails ''ola'']))
       = [1700000000, 1700000001]
   \<and> sorted (timestamps (snd (run (boot (Some ''dev'') mongo_up [(''dummy_model'', dummy_model)])
      [PostPredict valid_token ''ola'', GetRoot, PostPredict insert_fails ''ola''])))"
proof -
  let ?acts = "[PostPredict valid_token ''ola'', GetRoot, PostPredict insert_fails ''ola'']"
  let ?p = "boot (Some ''dev'') mongo_up [(''dummy_model'', dummy_model)]"
  have h: "sorted (clock_readings ?acts)"
    by (simp add: valid_token_def insert_fails_def)
  have v: "timestamps (snd (run ?p ?acts)) = [1700000000, 1700000001]"
    by (simp add: eval_defs)
  from timestamps_nonneg_monotone[of ?p ?acts] h v show ?thesis by simp
qed


end
